theory Spec2Isabelle
  imports Main "HOL-Library.Sublist"
begin

section \<open>Python strings\<close>

text \<open>
  A Python \<open>str\<close> is a sequence of Unicode code points, so a string is a list of
  natural numbers; \<open>py\<close> turns a literal into its code points.  \<open>len\<close> is \<open>length\<close>
  and the slice \<open>s[n:]\<close> is \<open>drop n s\<close>.
\<close>

type_synonym pystr = "nat list"

definition py :: "string \<Rightarrow> pystr" where
  "py s = map of_char s"

text \<open>
  \<open>str.isspace\<close> on one code point: the code points CPython treats as whitespace.
\<close>

definition isspace :: "nat \<Rightarrow> bool" where
  "isspace c =
     ((0x09 \<le> c \<and> c \<le> 0x0D) \<or> (0x1C \<le> c \<and> c \<le> 0x20) \<or> c = 0x85 \<or> c = 0xA0
      \<or> c = 0x1680 \<or> (0x2000 \<le> c \<and> c \<le> 0x200A) \<or> c = 0x2028 \<or> c = 0x2029
      \<or> c = 0x202F \<or> c = 0x205F \<or> c = 0x3000)"

text \<open>\<open>str.strip()\<close>: leading and trailing whitespace removed.\<close>

definition strip :: "pystr \<Rightarrow> pystr" where
  "strip s = rev (dropWhile isspace (rev (dropWhile isspace s)))"

text \<open>
  \<open>str.lower()\<close> on ASCII text: the letters \<open>A\<close> to \<open>Z\<close> are mapped to \<open>a\<close> to \<open>z\<close>
  and every other code point is kept.  On text with cased letters outside ASCII Python
  lower-cases these too, which \<open>lower\<close> does not: there the two agree only on what
  is decided by ASCII letters.  The only letters outside ASCII whose lower case has an
  ASCII letter are the Kelvin sign (to \<open>k\<close>) and the dotted capital I (to \<open>i\<close> followed
  by a combining dot), and no text holding one of them lower-cases to a text that
  starts with \<open>/device\<close> or is \<open>status\<close>, \<open>start\<close> or \<open>stop\<close>.  So the recognition
  of the prefix and of the sub-commands is that of the code for every text, and the
  text echoed for an unknown command is that of the code for ASCII text; the
  properties of the echoed text below are stated for ASCII text.
\<close>


definition lower_char :: "nat \<Rightarrow> nat" where
  "lower_char c = (if 0x41 \<le> c \<and> c \<le> 0x5A then c + 0x20 else c)"

definition lower :: "pystr \<Rightarrow> pystr" where
  "lower s = map lower_char s"

definition startswith :: "pystr \<Rightarrow> pystr \<Rightarrow> bool" where
  "startswith s p = (take (length p) s = p)"

text \<open>\<open>str(n)\<close> for an integer, as the f-strings format it: decimal digits and a sign.\<close>

fun digits :: "nat \<Rightarrow> pystr" where
  "digits n = (if n < 10 then [0x30 + n] else digits (n div 10) @ [0x30 + n mod 10])"

declare digits.simps [simp del]

definition str_int :: "int \<Rightarrow> pystr" where
  "str_int i = (if i < 0 then 0x2D # digits (nat (- i)) else digits (nat i))"


section \<open>The device simulator (\<open>device_simulator.py\<close>)\<close>

text \<open>
  \<open>DeviceSimulator.handle_command\<close>.  The first argument \<open>r\<close> is the integer that
  \<open>random.randint(0, 100)\<close> yields when the \<open>status\<close> branch calls it; the library
  promises \<open>0 \<le> r \<le> 100\<close>.  \<open>normalise\<close> is the first part of the body (strip, remove
  the prefix once, strip and lower-case), \<open>dispatch\<close> the chain of comparisons that
  follows.
\<close>

definition normalise :: "pystr \<Rightarrow> pystr" where
  "normalise command =
     (let cmd = strip command;
          cmd = (if startswith (lower cmd) (py ''/device'')
                 then drop (length (py ''/device'')) cmd else cmd)
      in lower (strip cmd))"

definition dispatch :: "int \<Rightarrow> pystr \<Rightarrow> pystr" where
  "dispatch r cmd =
     (if cmd = py ''status'' then py ''Current sensor reading is '' @ str_int r @ py ''.''
      else if cmd = py ''start'' then py ''Device has been started.''
      else if cmd = py ''stop'' then py ''Device has been stopped.''
      else if cmd = [] then py ''No command provided. Try '' @ [0x27] @ py ''/device status'' @ [0x27] @ py ''.''
      else py ''Unknown device command: '' @ [0x27] @ cmd @ [0x27] @ py ''.'')"

definition handle_command :: "int \<Rightarrow> pystr \<Rightarrow> pystr" where
  "handle_command r command = dispatch r (normalise command)"


section \<open>The chat server (\<open>main.py\<close>)\<close>

text \<open>
  A connection is the identity of one \<open>WebSocket\<close> object: the code compares
  clients with \<open>is\<close>, and \<open>in\<close> and \<open>remove\<close> compare them by identity too.
  The state is the global list \<open>connected_clients\<close>, in its order, together with
  the log \<open>sent\<close> of the texts that \<open>send_text\<close> has delivered, each with its
  receiver.
\<close>

type_synonym conn = nat

record hub =
  connected_clients :: "conn list"
  sent :: "(conn \<times> pystr) list"

text \<open>The list as the module creates it: \<open>connected_clients = []\<close>.\<close>

definition initial :: hub where
  "initial = \<lparr>connected_clients = [], sent = []\<rparr>"

datatype error = WebSocketDisconnect

text \<open>
  \<open>connected_clients.append(websocket)\<close>, the statement that follows
  \<open>await websocket.accept()\<close>: an append with no condition, reached when the
  accept has gone through.  The accept itself and its failure are
  \<open>websocket_endpoint_open\<close> below.
\<close>


definition websocket_accept :: "conn \<Rightarrow> hub \<Rightarrow> hub" where
  "websocket_accept websocket st = st\<lparr>connected_clients := connected_clients st @ [websocket]\<rparr>"

text \<open>
  \<open>if client in connected_clients: connected_clients.remove(client)\<close>, the removal
  written at three places: after a failed send in the chat loop, after a failed send
  in the sensor loop, and when the session of the client ends.  \<open>list.remove\<close>
  deletes the first occurrence.
\<close>

definition remove_client :: "conn \<Rightarrow> hub \<Rightarrow> hub" where
  "remove_client client st =
     (if client \<in> set (connected_clients st)
      then st\<lparr>connected_clients := remove1 client (connected_clients st)\<rparr> else st)"

text \<open>
  What the sessions of the other clients do to the list: a client is accepted, or the
  session of a client ends (or a send to it failed) and it is removed.
\<close>

datatype event = Connect conn | Disconnect conn

fun apply_event :: "hub \<Rightarrow> event \<Rightarrow> hub" where
  "apply_event st (Connect c) = websocket_accept c st"
| "apply_event st (Disconnect c) = remove_client c st"

text \<open>
  The event loop runs one task at a time and changes task only at an \<open>await\<close>.
  A schedule lists, for each coming \<open>await\<close> of a call in order, the events of the
  other tasks that run while that \<open>await\<close> is pending; when the schedule is used up,
  no other task runs.  The empty schedule is the call running alone.
\<close>

definition others_run :: "event list list \<Rightarrow> hub \<Rightarrow> hub" where
  "others_run sched st = (case sched of [] \<Rightarrow> st | evs # _ \<Rightarrow> foldl apply_event st evs)"

text \<open>
  \<open>client.send_text(text)\<close>: \<open>up c\<close> tells whether the peer of \<open>c\<close> still takes
  the text; otherwise the call raises \<open>WebSocketDisconnect\<close>, the error of the first
  send that finds the peer gone.  Each loop sends to a connection at most once in a
  call and removes it when that send fails.  A further send on the same object, which
  only a task still holding it from before the removal can make, raises
  \<open>RuntimeError\<close> in the library, which no handler of \<open>main.py\<close> catches; that case is
  outside this model, where \<open>up\<close> is fixed for the call.
\<close>


definition send_text :: "(conn \<Rightarrow> bool) \<Rightarrow> conn \<Rightarrow> pystr \<Rightarrow> hub \<Rightarrow> error + hub" where
  "send_text up c text st =
     (if up c then Inr (st\<lparr>sent := sent st @ [(c, text)]\<rparr>) else Inl WebSocketDisconnect)"

text \<open>
  The chat loop \<open>for client in connected_clients: ...\<close> of \<open>websocket_endpoint\<close>.
  Python's list iterator keeps an index \<open>i\<close> into the list itself: each round reads
  \<open>connected_clients[i]\<close> if \<open>i\<close> is below the current length, and advances.  The
  sender is passed over without an \<open>await\<close>; for every other client the text is sent,
  and a client whose send raises is removed from the list.
\<close>

function chat_fanout ::
  "(conn \<Rightarrow> bool) \<Rightarrow> event list list \<Rightarrow> conn \<Rightarrow> pystr \<Rightarrow> nat \<Rightarrow> hub \<Rightarrow> hub" where
  "chat_fanout up sched websocket broadcast_text i st =
     (if i < length (connected_clients st) then
        (let client = connected_clients st ! i in
         if client \<noteq> websocket then
           (case send_text up client broadcast_text (others_run sched st) of
              Inr st' \<Rightarrow> chat_fanout up (tl sched) websocket broadcast_text (i + 1) st'
            | Inl WebSocketDisconnect \<Rightarrow>
                chat_fanout up (tl sched) websocket broadcast_text (i + 1)
                  (remove_client client (others_run sched st)))
         else chat_fanout up sched websocket broadcast_text (i + 1) st)
      else st)"
  by pat_completeness auto
termination
  apply (relation "measures [\<lambda>(up, sched, ws, t, i, st). length sched,
                             \<lambda>(up, sched, ws, t, i, st). length (connected_clients st) - i]")
   apply (auto simp: send_text_def others_run_def remove_client_def length_remove1
      split: if_splits list.splits)
  done

declare chat_fanout.simps [simp del]

text \<open>
  The sensor loop \<open>for client in list(connected_clients): ...\<close> of
  \<open>device_sensor_broadcast\<close>: the iteration is over a copy of the list, the removal
  after a failed send is from the list itself.
\<close>

fun sensor_fanout ::
  "(conn \<Rightarrow> bool) \<Rightarrow> event list list \<Rightarrow> pystr \<Rightarrow> conn list \<Rightarrow> hub \<Rightarrow> hub" where
  "sensor_fanout up sched message [] st = st"
| "sensor_fanout up sched message (client # snapshot) st =
     (case send_text up client message (others_run sched st) of
        Inr st' \<Rightarrow> sensor_fanout up (tl sched) message snapshot st'
      | Inl WebSocketDisconnect \<Rightarrow>
          sensor_fanout up (tl sched) message snapshot (remove_client client (others_run sched st)))"

text \<open>
  One round of \<open>device_sensor_broadcast\<close>, from the end of its sleep:
  \<open>sensor_value\<close> is the integer that \<open>random.randint(0, 100)\<close> yields.
\<close>

definition device_sensor_broadcast :: "(conn \<Rightarrow> bool) \<Rightarrow> event list list \<Rightarrow> int \<Rightarrow> hub \<Rightarrow> hub" where
  "device_sensor_broadcast up sched sensor_value st =
     (let message = py ''Sensor reading: '' @ str_int sensor_value
      in sensor_fanout up sched message (connected_clients st) st)"

text \<open>
  One round of the read loop of \<open>websocket_endpoint\<close>, for the text \<open>data\<close> that
  \<open>receive_text\<close> returned.  A device command is answered to the sender alone; if
  that send raises, the outer handler removes the sender and the session ends.  Any
  other text goes through the chat loop.  The arrow of the two f-strings is the code
  point \<open>0x27A4\<close>.
\<close>

datatype session = Reading | Disconnected

definition websocket_receive ::
  "(conn \<Rightarrow> bool) \<Rightarrow> event list list \<Rightarrow> int \<Rightarrow> conn \<Rightarrow> pystr \<Rightarrow> hub \<Rightarrow> session \<times> hub" where
  "websocket_receive up sched r websocket data st =
     (if startswith (lower (strip data)) (py ''/device'') then
        (let response = handle_command r data in
         case send_text up websocket (py ''Device '' @ [0x27A4] @ py '' '' @ response)
                (others_run sched st) of
           Inr st' \<Rightarrow> (Reading, st')
         | Inl WebSocketDisconnect \<Rightarrow> (Disconnected, remove_client websocket (others_run sched st)))
      else
        (let broadcast_text = py ''User '' @ [0x27A4] @ py '' '' @ data
         in (Reading, chat_fanout up sched websocket broadcast_text 0 st)))"


section \<open>Traces of connects and disconnects\<close>

text \<open>
  The connections accepted along a trace, in order, and the connections that were
  accepted and have no disconnect after their accept.
\<close>

fun accepted :: "event list \<Rightarrow> conn list" where
  "accepted [] = []"
| "accepted (Connect c # evs) = c # accepted evs"
| "accepted (Disconnect c # evs) = accepted evs"

fun expected_members :: "event list \<Rightarrow> conn set" where
  "expected_members [] = {}"
| "expected_members (Connect c # evs) =
     (if Disconnect c \<in> set evs then expected_members evs else insert c (expected_members evs))"
| "expected_members (Disconnect c # evs) = expected_members evs"


section \<open>Entering the endpoint: \<open>accept\<close> and the append\<close>






section \<open>Properties of the device simulator\<close>

lemmas py_eval = py_def isspace_def strip_def lower_char_def lower_def startswith_def
  normalise_def dispatch_def handle_command_def

lemma digits_small: "n < 10 \<Longrightarrow> digits n = [0x30 + n]"
  by (simp add: digits.simps)

lemma str_int_42: "str_int 42 = py ''42''"
  by (simp add: str_int_def py_def digits.simps [of 42] digits_small)

lemma len_prefix: "length (py ''/device'') = 7"
  by (simp add: py_def)

lemma sublist_quoted: "sublist xs (a @ q @ xs @ c)"
  unfolding sublist_def by (intro exI [of _ "a @ q"] exI [of _ c]) simp

subsection \<open>Decimal numerals\<close>

lemma digits_nonempty: "digits n \<noteq> []"
  by (subst digits.simps) simp

lemma digits_are_digits: "\<forall>d \<in> set (digits n). 0x30 \<le> d \<and> d \<le> 0x39"
proof (induction n rule: digits.induct)
  case (1 n)
  show ?case
  proof (cases "n < 10")
    case True
    then show ?thesis by (simp add: digits_small)
  next
    case False
    have "n mod 10 < 10" by simp
    then have "0x30 + n mod 10 \<le> 0x39" by linarith
    with False "1.IH" show ?thesis
      by (subst digits.simps) simp
  qed
qed

lemma digits_value: "foldl (\<lambda>v d. 10 * v + (d - 0x30)) 0 (digits n) = n"
proof (induction n rule: digits.induct)
  case (1 n)
  show ?case
  proof (cases "n < 10")
    case True
    then show ?thesis by (simp add: digits_small)
  next
    case False
    with "1.IH" show ?thesis
      by (subst digits.simps) simp
  qed
qed

lemma digits_no_leading_zero: "0 < n \<Longrightarrow> hd (digits n) \<noteq> 0x30"
proof (induction n rule: digits.induct)
  case (1 n)
  show ?case
  proof (cases "n < 10")
    case True
    with "1.prems" show ?thesis by (simp add: digits_small)
  next
    case False
    then have "0 < n div 10" by simp
    with False "1.IH" have "hd (digits (n div 10)) \<noteq> 0x30" by simp
    with False show ?thesis
      by (subst digits.simps) (simp add: digits_nonempty)
  qed
qed

lemma length_digits: "n \<le> 100 \<Longrightarrow> length (digits n) \<le> 3"
  by (simp add: digits.simps [of n] digits.simps [of "n div 10"] digits.simps [of "n div 10 div 10"])

subsection \<open>Texts with padding, prefix and remainder\<close>

lemma strip_spaces:
  assumes "\<forall>c \<in> set a. isspace c"
  shows "strip a = []"
proof -
  from assms have lead: "dropWhile isspace a = []"
    by simp
  show ?thesis
    unfolding strip_def lead by simp
qed

lemma dropWhile_pad:
  "\<forall>c \<in> set a. P c \<Longrightarrow> x \<noteq> [] \<Longrightarrow> \<not> P (hd x) \<Longrightarrow> dropWhile P (a @ x) = x"
  by (cases x) (simp_all add: dropWhile_append3)

lemma strip_pad:
  assumes "\<forall>c \<in> set a. isspace c" and "\<forall>c \<in> set b. isspace c"
    and "x \<noteq> []" and "\<not> isspace (hd x)" and "\<not> isspace (last x)"
  shows "strip (a @ x @ b) = x"
proof -
  from assms(3,4) have "hd (x @ b) = hd x" "x @ b \<noteq> []"
    by simp_all
  with assms(1,4) have lead: "dropWhile isspace (a @ x @ b) = x @ b"
    by (intro dropWhile_pad) simp_all
  from assms(3,5) have "\<not> isspace (hd (rev x))"
    by (simp add: hd_rev)
  with assms(2,3) have "dropWhile isspace (rev b @ rev x) = rev x"
    by (intro dropWhile_pad) simp_all
  with lead show ?thesis
    by (simp add: strip_def)
qed

lemma lower_char_slash: "lower_char c = 0x2F \<longleftrightarrow> c = 0x2F"
  by (auto simp: lower_char_def)

lemma isspace_lower_char: "isspace (lower_char c) \<longleftrightarrow> isspace c"
  by (auto simp: lower_char_def isspace_def)

lemma prefix_spelling:
  assumes "lower p = py ''/device''"
  shows "length p = 7" and "p \<noteq> []" and "\<not> isspace (hd p)" and "\<not> isspace (last p)"
proof -
  from assms have "length (lower p) = 7"
    by (simp add: py_def)
  then show len: "length p = 7"
    by (simp add: lower_def)
  then show ne: "p \<noteq> []"
    by auto
  from ne have "lower_char (hd p) = hd (lower p)" "lower_char (last p) = last (lower p)"
    by (simp_all add: lower_def hd_map last_map)
  with assms have "lower_char (hd p) = 0x2F" "lower_char (last p) = 0x65"
    by (simp_all add: py_def)
  then have "\<not> isspace (lower_char (hd p))" "\<not> isspace (lower_char (last p))"
    by (simp_all add: isspace_def)
  then show "\<not> isspace (hd p)" "\<not> isspace (last p)"
    by (simp_all add: isspace_lower_char)
qed

lemma normalise_prefixed:
  assumes a: "\<forall>c \<in> set a. isspace c" and g: "\<forall>c \<in> set g. isspace c" and b: "\<forall>c \<in> set b. isspace c"
    and p: "lower p = py ''/device''"
    and t: "t = [] \<or> (\<not> isspace (hd t) \<and> \<not> isspace (last t))"
  shows "normalise (a @ p @ g @ t @ b) = lower t"
proof -
  note ps = prefix_spelling [OF p]
  have st: "strip (a @ p @ g @ t @ b) = p @ (if t = [] then [] else g @ t)"
  proof (cases "t = []")
    case True
    from g b have "\<forall>c \<in> set (g @ b). isspace c"
      by auto
    with a ps have "strip (a @ p @ (g @ b)) = p"
      by (intro strip_pad) simp_all
    with True show ?thesis by simp
  next
    case False
    with t ps have "p @ g @ t \<noteq> []" "\<not> isspace (hd (p @ g @ t))" "\<not> isspace (last (p @ g @ t))"
      by simp_all
    with a b have "strip (a @ (p @ g @ t) @ b) = p @ g @ t"
      by (intro strip_pad)
    with False show ?thesis by simp
  qed
  from ps(1) p have sw: "startswith (lower (strip (a @ p @ g @ t @ b))) (py ''/device'')"
    unfolding st by (simp add: startswith_def lower_def len_prefix)
  have rest: "strip (drop 7 (strip (a @ p @ g @ t @ b))) = t"
  proof (cases "t = []")
    case True
    with ps(1) show ?thesis
      unfolding st by (simp add: strip_def)
  next
    case False
    with t g have "strip (g @ t @ []) = t"
      by (intro strip_pad) simp_all
    with False ps(1) show ?thesis
      unfolding st by simp
  qed
  from sw rest show ?thesis
    by (simp add: normalise_def len_prefix Let_def)
qed

lemma normalise_plain:
  assumes a: "\<forall>c \<in> set a. isspace c" and b: "\<forall>c \<in> set b. isspace c"
    and t: "t = [] \<or> (\<not> isspace (hd t) \<and> \<not> isspace (last t))"
    and np: "take 7 (lower t) \<noteq> py ''/device''"
  shows "normalise (a @ t @ b) = lower t"
proof -
  have st: "strip (a @ t @ b) = t"
  proof (cases "t = []")
    case True
    from a b have "\<forall>c \<in> set (a @ b). isspace c" by auto
    then have "strip (a @ b) = []" by (rule strip_spaces)
    with True show ?thesis by simp
  next
    case False
    with a b t show ?thesis by (intro strip_pad) simp_all
  qed
  have st2: "strip t = t"
  proof (cases "t = []")
    case True
    then show ?thesis by (simp add: strip_def)
  next
    case False
    with t have "strip ([] @ t @ []) = t"
      by (intro strip_pad) simp_all
    then show ?thesis by simp
  qed
  from np have "\<not> startswith (lower (strip (a @ t @ b))) (py ''/device'')"
    unfolding st by (simp add: startswith_def len_prefix)
  then show ?thesis
    by (simp add: normalise_def Let_def st st2)
qed

lemma spelling_trimmed:
  assumes "lower s = k" and "k \<noteq> []" and "\<not> isspace (hd k)" and "\<not> isspace (last k)"
  shows "s \<noteq> []" and "\<not> isspace (hd s)" and "\<not> isspace (last s)"
proof -
  from assms(1,2) show ne: "s \<noteq> []"
    by (auto simp: lower_def)
  with assms(1) have "hd k = lower_char (hd s)" "last k = lower_char (last s)"
    by (auto simp: lower_def hd_map last_map)
  with assms(3,4) show "\<not> isspace (hd s)" "\<not> isspace (last s)"
    by (simp_all add: isspace_lower_char)
qed

lemma handle_command_prefixed:
  assumes "\<forall>c \<in> set a. isspace c" and "\<forall>c \<in> set g. isspace c" and "\<forall>c \<in> set b. isspace c"
    and "lower p = py ''/device''"
    and "t = [] \<or> (\<not> isspace (hd t) \<and> \<not> isspace (last t))"
  shows "handle_command r (a @ p @ g @ t @ b) = dispatch r (lower t)"
  using normalise_prefixed [OF assms] by (simp add: handle_command_def)

lemma handle_command_plain:
  assumes "\<forall>c \<in> set a. isspace c" and "\<forall>c \<in> set b. isspace c"
    and "t = [] \<or> (\<not> isspace (hd t) \<and> \<not> isspace (last t))"
    and "take 7 (lower t) \<noteq> py ''/device''"
  shows "handle_command r (a @ t @ b) = dispatch r (lower t)"
  using normalise_plain [OF assms] by (simp add: handle_command_def)

lemma dispatch_unknown:
  "cmd \<notin> {py ''status'', py ''start'', py ''stop'', []} \<Longrightarrow>
   dispatch r cmd = py ''Unknown device command: '' @ [0x27] @ cmd @ [0x27] @ py ''.''"
  by (simp add: dispatch_def)

subsection \<open>The sub-commands\<close>

text \<open>
  Claim C7.  The recognised sub-commands, given bare or behind the prefix, for a
  draw \<open>r\<close> between 0 and 100.  \<open>status\<close> answers with the sentence that holds the
  decimal numeral of \<open>r\<close>: one to three digits, no leading zero, of value \<open>r\<close>, an
  integer between 0 and 100.  \<open>start\<close> and \<open>stop\<close> answer with their fixed
  sentences, the empty command answers with the usage hint, and \<open>foo\<close> answers with
  the unknown-command message, which contains \<open>foo\<close>.
\<close>

theorem handle_command_subcommands:
  assumes "0 \<le> r" and "r \<le> 100"
  shows "handle_command r (py ''status'') = py ''Current sensor reading is '' @ str_int r @ py ''.''
       \<and> handle_command r (py ''/device status'') = py ''Current sensor reading is '' @ str_int r @ py ''.''
       \<and> str_int r \<noteq> [] \<and> length (str_int r) \<le> 3
       \<and> (\<forall>d \<in> set (str_int r). 0x30 \<le> d \<and> d \<le> 0x39)
       \<and> (length (str_int r) = 1 \<or> hd (str_int r) \<noteq> 0x30)
       \<and> int (foldl (\<lambda>v d. 10 * v + (d - 0x30)) 0 (str_int r)) = r
       \<and> handle_command r (py ''start'') = py ''Device has been started.''
       \<and> handle_command r (py ''/device start'') = py ''Device has been started.''
       \<and> handle_command r (py ''stop'') = py ''Device has been stopped.''
       \<and> handle_command r (py ''/device stop'') = py ''Device has been stopped.''
       \<and> handle_command r [] = py ''No command provided. Try '' @ [0x27] @ py ''/device status'' @ [0x27] @ py ''.''
       \<and> handle_command r (py ''/device'') = py ''No command provided. Try '' @ [0x27] @ py ''/device status'' @ [0x27] @ py ''.''
       \<and> handle_command r (py ''foo'') = py ''Unknown device command: '' @ [0x27] @ py ''foo'' @ [0x27] @ py ''.''
       \<and> handle_command r (py ''/device foo'') = py ''Unknown device command: '' @ [0x27] @ py ''foo'' @ [0x27] @ py ''.''
       \<and> sublist (py ''foo'') (handle_command r (py ''foo''))"
proof -
  have status: "handle_command r (py ''status'') = py ''Current sensor reading is '' @ str_int r @ py ''.''"
    by (simp add: py_eval)
  have dstatus: "handle_command r (py ''/device status'') = py ''Current sensor reading is '' @ str_int r @ py ''.''"
    by (simp add: py_eval)
  from assms(1) have str: "str_int r = digits (nat r)"
    by (simp add: str_int_def)
  have ne: "str_int r \<noteq> []"
    unfolding str by (rule digits_nonempty)
  from assms(2) have len: "length (str_int r) \<le> 3"
    unfolding str by (intro length_digits) simp
  have dig: "\<forall>d \<in> set (str_int r). 0x30 \<le> d \<and> d \<le> 0x39"
    unfolding str by (rule digits_are_digits)
  have lead: "length (str_int r) = 1 \<or> hd (str_int r) \<noteq> 0x30"
  proof (cases "nat r = 0")
    case True
    then show ?thesis
      unfolding str by (simp add: digits_small)
  next
    case False
    then have "hd (digits (nat r)) \<noteq> 0x30"
      by (intro digits_no_leading_zero) simp
    then show ?thesis
      unfolding str by simp
  qed
  from assms(1) have val: "int (foldl (\<lambda>v d. 10 * v + (d - 0x30)) 0 (str_int r)) = r"
    unfolding str by (simp add: digits_value)
  have start: "handle_command r (py ''start'') = py ''Device has been started.''"
    by (simp add: py_eval)
  have dstart: "handle_command r (py ''/device start'') = py ''Device has been started.''"
    by (simp add: py_eval)
  have stop: "handle_command r (py ''stop'') = py ''Device has been stopped.''"
    by (simp add: py_eval)
  have dstop: "handle_command r (py ''/device stop'') = py ''Device has been stopped.''"
    by (simp add: py_eval)
  have empty: "handle_command r [] = py ''No command provided. Try '' @ [0x27] @ py ''/device status'' @ [0x27] @ py ''.''"
    by (simp add: py_eval)
  have dempty: "handle_command r (py ''/device'') = py ''No command provided. Try '' @ [0x27] @ py ''/device status'' @ [0x27] @ py ''.''"
    by (simp add: py_eval)
  have foo: "handle_command r (py ''foo'') = py ''Unknown device command: '' @ [0x27] @ py ''foo'' @ [0x27] @ py ''.''"
    by (simp add: py_eval)
  have dfoo: "handle_command r (py ''/device foo'') = py ''Unknown device command: '' @ [0x27] @ py ''foo'' @ [0x27] @ py ''.''"
    by (simp add: py_eval)
  have sub: "sublist (py ''foo'') (handle_command r (py ''foo''))"
    unfolding foo by (rule sublist_quoted)
  from status dstatus ne len dig lead val start dstart stop dstop empty dempty foo dfoo sub
  show ?thesis
    by blast
qed

theorem handle_command_subcommands_witness:
  "(0::int) \<le> 42 \<and> (42::int) \<le> 100
   \<and> handle_command 42 (py ''status'') = py ''Current sensor reading is 42.''
   \<and> handle_command 42 (py ''/device status'') = py ''Current sensor reading is 42.''
   \<and> int (foldl (\<lambda>v d. 10 * v + (d - 0x30)) 0 (py ''42'')) = 42
   \<and> handle_command 42 (py ''start'') = py ''Device has been started.''
   \<and> handle_command 42 (py ''stop'') = py ''Device has been stopped.''
   \<and> handle_command 42 [] = py ''No command provided. Try '' @ [0x27] @ py ''/device status'' @ [0x27] @ py ''.''
   \<and> sublist (py ''foo'') (handle_command 42 (py ''foo''))"
proof -
  have h: "(0::int) \<le> 42" "(42::int) \<le> 100"
    by simp_all
  have lit: "py ''Current sensor reading is '' @ py ''42'' @ py ''.'' = py ''Current sensor reading is 42.''"
    by (simp add: py_def)
  note inst = handle_command_subcommands [OF h]
  from inst have "handle_command 42 (py ''status'') = py ''Current sensor reading is 42.''"
    "handle_command 42 (py ''/device status'') = py ''Current sensor reading is 42.''"
    "int (foldl (\<lambda>v d. 10 * v + (d - 0x30)) 0 (py ''42'')) = 42"
    unfolding str_int_42 lit by blast+
  with inst h show ?thesis
    by blast
qed


text \<open>
  Claim C8, as stated: the unknown-command message echoes the text as the user wrote
  it.  It fails at \<open>/device Foo\<close>: the reply quotes \<open>foo\<close>, and \<open>Foo\<close> occurs
  nowhere in it.
\<close>

theorem unknown_echo_counterexample:
  "normalise (py ''/device Foo'') \<notin> {py ''status'', py ''start'', py ''stop'', []}
   \<and> handle_command 0 (py ''/device Foo'') =
       py ''Unknown device command: '' @ [0x27] @ py ''foo'' @ [0x27] @ py ''.''
   \<and> \<not> sublist (py ''Foo'') (handle_command 0 (py ''/device Foo''))"
proof -
  have norm: "normalise (py ''/device Foo'') = py ''foo''"
    by (simp add: py_eval)
  have reply: "handle_command 0 (py ''/device Foo'') =
      py ''Unknown device command: '' @ [0x27] @ py ''foo'' @ [0x27] @ py ''.''"
    by (simp add: py_eval)
  have "\<not> sublist (py ''Foo'') (handle_command 0 (py ''/device Foo''))"
  proof
    assume "sublist (py ''Foo'') (handle_command 0 (py ''/device Foo''))"
    then have "set (py ''Foo'') \<subseteq> set (handle_command 0 (py ''/device Foo''))"
      by (rule set_mono_sublist)
    then show False
      unfolding reply by (simp add: py_def)
  qed
  moreover have "normalise (py ''/device Foo'') \<notin> {py ''status'', py ''start'', py ''stop'', []}"
    unfolding norm by (simp add: py_def)
  ultimately show ?thesis
    using reply by blast
qed

text \<open>
  Claim C8, amended.  Let an input be made of whitespace, the prefix in any letter
  case, whitespace, a non-empty ASCII text \<open>t\<close> without whitespace at either end, and
  whitespace; or of the same without the prefix, when \<open>t\<close> does not itself start
  with it.  If \<open>t\<close> lower-cased is none of \<open>status\<close>, \<open>start\<close> and \<open>stop\<close>, the reply
  is the unknown-command message quoting \<open>t\<close> lower-cased, that is with \<open>A\<close> to \<open>Z\<close>
  replaced by \<open>a\<close> to \<open>z\<close>; when \<open>t\<close> has a capital letter, this is not the message
  quoting \<open>t\<close> as it was written.
\<close>

theorem unknown_command_echo:
  assumes a: "\<forall>c \<in> set a. isspace c" and g: "\<forall>c \<in> set g. isspace c" and b: "\<forall>c \<in> set b. isspace c"
    and p: "lower p = py ''/device''"
    and t: "t \<noteq> []" "\<not> isspace (hd t)" "\<not> isspace (last t)"
    and ascii: "\<forall>c \<in> set t. c < 0x80"
    and unknown: "lower t \<notin> {py ''status'', py ''start'', py ''stop''}"
  shows "handle_command r (a @ p @ g @ t @ b) =
           py ''Unknown device command: '' @ [0x27] @ lower t @ [0x27] @ py ''.''
       \<and> (take 7 (lower t) \<noteq> py ''/device'' \<longrightarrow>
            handle_command r (a @ t @ b) =
              py ''Unknown device command: '' @ [0x27] @ lower t @ [0x27] @ py ''.'')
       \<and> lower t = map (\<lambda>c. if 0x41 \<le> c \<and> c \<le> 0x5A then c + 0x20 else c) t
       \<and> sublist (lower t) (handle_command r (a @ p @ g @ t @ b))
       \<and> (lower t \<noteq> t \<longrightarrow>
            handle_command r (a @ p @ g @ t @ b) \<noteq>
              py ''Unknown device command: '' @ [0x27] @ t @ [0x27] @ py ''.'')"
proof -
  from t(1) unknown have nd: "lower t \<notin> {py ''status'', py ''start'', py ''stop'', []}"
    by (simp add: lower_def)
  from t have tr: "t = [] \<or> (\<not> isspace (hd t) \<and> \<not> isspace (last t))"
    by simp
  have pre: "handle_command r (a @ p @ g @ t @ b) =
           py ''Unknown device command: '' @ [0x27] @ lower t @ [0x27] @ py ''.''"
    unfolding handle_command_prefixed [OF a g b p tr] by (rule dispatch_unknown [OF nd])
  have bare: "take 7 (lower t) \<noteq> py ''/device'' \<longrightarrow>
            handle_command r (a @ t @ b) =
              py ''Unknown device command: '' @ [0x27] @ lower t @ [0x27] @ py ''.''"
  proof
    assume np: "take 7 (lower t) \<noteq> py ''/device''"
    show "handle_command r (a @ t @ b) =
              py ''Unknown device command: '' @ [0x27] @ lower t @ [0x27] @ py ''.''"
      unfolding handle_command_plain [OF a b tr np] by (rule dispatch_unknown [OF nd])
  qed
  have low: "lower t = map (\<lambda>c. if 0x41 \<le> c \<and> c \<le> 0x5A then c + 0x20 else c) t"
    by (simp add: lower_def lower_char_def)
  have sub: "sublist (lower t) (handle_command r (a @ p @ g @ t @ b))"
    unfolding pre by (rule sublist_quoted)
  have diff: "lower t \<noteq> t \<longrightarrow>
            handle_command r (a @ p @ g @ t @ b) \<noteq>
              py ''Unknown device command: '' @ [0x27] @ t @ [0x27] @ py ''.''"
    unfolding pre by (simp add: lower_def)
  from pre bare low sub diff show ?thesis
    by blast
qed

theorem unknown_command_echo_witness:
  "handle_command 0 ([0x20] @ py ''/Device'' @ [0x09, 0x20] @ py ''Foo-Bar'' @ [0x0A]) =
     py ''Unknown device command: '' @ [0x27] @ py ''foo-bar'' @ [0x27] @ py ''.''
   \<and> handle_command 0 ([0x20] @ py ''Foo-Bar'' @ [0x0A]) =
     py ''Unknown device command: '' @ [0x27] @ py ''foo-bar'' @ [0x27] @ py ''.''
   \<and> lower (py ''Foo-Bar'') = py ''foo-bar''
   \<and> handle_command 0 ([0x20] @ py ''/Device'' @ [0x09, 0x20] @ py ''Foo-Bar'' @ [0x0A]) \<noteq>
     py ''Unknown device command: '' @ [0x27] @ py ''Foo-Bar'' @ [0x27] @ py ''.''"
proof -
  have low: "lower (py ''Foo-Bar'') = py ''foo-bar''"
    by (simp add: py_def lower_def lower_char_def)
  have h: "\<forall>c \<in> set [0x20]. isspace c" "\<forall>c \<in> set [0x09, 0x20]. isspace c" "\<forall>c \<in> set [0x0A]. isspace c"
    "lower (py ''/Device'') = py ''/device''"
    "py ''Foo-Bar'' \<noteq> []" "\<not> isspace (hd (py ''Foo-Bar''))" "\<not> isspace (last (py ''Foo-Bar''))"
    "\<forall>c \<in> set (py ''Foo-Bar''). c < 0x80"
    "lower (py ''Foo-Bar'') \<notin> {py ''status'', py ''start'', py ''stop''}"
    by (simp_all add: py_def lower_def lower_char_def isspace_def)
  have np: "take 7 (lower (py ''Foo-Bar'')) \<noteq> py ''/device''" "lower (py ''Foo-Bar'') \<noteq> py ''Foo-Bar''"
    by (simp_all add: py_def lower_def lower_char_def)
  from unknown_command_echo [OF h, of 0] np low show ?thesis
    by simp
qed


text \<open>
  Claim C9, as stated: two calls with the same text return the same response.  It
  fails at \<open>status\<close>, whose reply carries the integer drawn by the random
  generator: with the draws 3 and 7 the two replies differ.
\<close>

theorem handle_command_same_input_counterexample:
  "(0::int) \<le> 3 \<and> (3::int) \<le> 100 \<and> (0::int) \<le> 7 \<and> (7::int) \<le> 100
   \<and> handle_command 3 (py ''status'') \<noteq> handle_command 7 (py ''status'')"
  by (simp add: py_eval str_int_def digits_small)

text \<open>
  Claim C9, amended: the reply is a function of the input text and of the integer
  drawn in the \<open>status\<close> branch, and of nothing else; for every input whose
  normalised sub-command is not \<open>status\<close>, any two calls return the same reply,
  whatever the random generator yields.
\<close>

theorem handle_command_deterministic_unless_status:
  assumes "normalise command \<noteq> py ''status''"
  shows "handle_command r1 command = handle_command r2 command"
  using assms by (simp add: handle_command_def dispatch_def)

theorem handle_command_deterministic_unless_status_witness:
  "normalise (py '' /Device  STOP '') \<noteq> py ''status''
   \<and> handle_command 3 (py '' /Device  STOP '') = handle_command 7 (py '' /Device  STOP '')"
proof -
  have h: "normalise (py '' /Device  STOP '') \<noteq> py ''status''"
    by (simp add: py_eval)
  from handle_command_deterministic_unless_status [OF h, of 3 7] h show ?thesis
    by simp
qed

text \<open>
  Claim C10.  For an input made of whitespace, the prefix in any letter case,
  whitespace, a remainder and whitespace: the prefix is removed once and the reply is
  the dispatch on the whole remainder lower-cased (stated for an ASCII remainder).
  Hence every spelling of \<open>start\<close>, \<open>stop\<close> and \<open>status\<close>, behind any spelling of the
  prefix or bare, gets the reply of the sub-command; and every remainder that itself
  starts with the prefix is an unknown command, quoted with its own prefix, not parsed
  again.  The two examples of the claim are instances.
\<close>

theorem handle_command_prefix_once:
  assumes a: "\<forall>c \<in> set a. isspace c" and g: "\<forall>c \<in> set g. isspace c" and b: "\<forall>c \<in> set b. isspace c"
    and p: "lower p = py ''/device''"
  shows "((t = [] \<or> (\<not> isspace (hd t) \<and> \<not> isspace (last t))) \<and> (\<forall>c \<in> set t. c < 0x80) \<longrightarrow>
            handle_command r (a @ p @ g @ t @ b) = dispatch r (lower t))
       \<and> (lower s = py ''start'' \<longrightarrow>
            handle_command r (a @ p @ g @ s @ b) = py ''Device has been started.''
          \<and> handle_command r (a @ s @ b) = py ''Device has been started.'')
       \<and> (lower s = py ''stop'' \<longrightarrow>
            handle_command r (a @ p @ g @ s @ b) = py ''Device has been stopped.''
          \<and> handle_command r (a @ s @ b) = py ''Device has been stopped.'')
       \<and> (lower s = py ''status'' \<longrightarrow>
            handle_command r (a @ p @ g @ s @ b) = py ''Current sensor reading is '' @ str_int r @ py ''.''
          \<and> handle_command r (a @ s @ b) = py ''Current sensor reading is '' @ str_int r @ py ''.'')
       \<and> (take 7 (lower t) = py ''/device'' \<and> \<not> isspace (last t) \<and> (\<forall>c \<in> set t. c < 0x80) \<longrightarrow>
            handle_command r (a @ p @ g @ t @ b) =
              py ''Unknown device command: '' @ [0x27] @ lower t @ [0x27] @ py ''.''
          \<and> take 7 (lower t) = py ''/device'')
       \<and> handle_command r (py ''/DEVICE START'') = py ''Device has been started.''
       \<and> handle_command r (py ''/device /device status'') =
           py ''Unknown device command: '' @ [0x27] @ py ''/device status'' @ [0x27] @ py ''.''"
proof -
  have shape: "(t = [] \<or> (\<not> isspace (hd t) \<and> \<not> isspace (last t))) \<and> (\<forall>c \<in> set t. c < 0x80) \<longrightarrow>
            handle_command r (a @ p @ g @ t @ b) = dispatch r (lower t)"
    using handle_command_prefixed [OF a g b p] by blast
  have word: "handle_command r (a @ p @ g @ s @ b) = dispatch r k \<and> handle_command r (a @ s @ b) = dispatch r k"
    if k: "lower s = k" "k \<noteq> []" "\<not> isspace (hd k)" "\<not> isspace (last k)" "take 7 k \<noteq> py ''/device''" for k
  proof -
    from spelling_trimmed [OF k(1-4)]
    have tr: "s = [] \<or> (\<not> isspace (hd s) \<and> \<not> isspace (last s))"
      by simp
    from k(1,5) have np: "take 7 (lower s) \<noteq> py ''/device''"
      by simp
    from handle_command_prefixed [OF a g b p tr, of r] handle_command_plain [OF a b tr np, of r] k(1)
    show ?thesis by simp
  qed
  have start: "lower s = py ''start'' \<longrightarrow>
            handle_command r (a @ p @ g @ s @ b) = py ''Device has been started.''
          \<and> handle_command r (a @ s @ b) = py ''Device has been started.''"
  proof
    assume k: "lower s = py ''start''"
    have "py ''start'' \<noteq> []" "\<not> isspace (hd (py ''start''))" "\<not> isspace (last (py ''start''))"
      "take 7 (py ''start'') \<noteq> py ''/device''"
      by (simp_all add: py_def isspace_def)
    from word [OF k this]
    show "handle_command r (a @ p @ g @ s @ b) = py ''Device has been started.''
          \<and> handle_command r (a @ s @ b) = py ''Device has been started.''"
      by (simp add: dispatch_def py_def)
  qed
  have stop: "lower s = py ''stop'' \<longrightarrow>
            handle_command r (a @ p @ g @ s @ b) = py ''Device has been stopped.''
          \<and> handle_command r (a @ s @ b) = py ''Device has been stopped.''"
  proof
    assume k: "lower s = py ''stop''"
    have "py ''stop'' \<noteq> []" "\<not> isspace (hd (py ''stop''))" "\<not> isspace (last (py ''stop''))"
      "take 7 (py ''stop'') \<noteq> py ''/device''"
      by (simp_all add: py_def isspace_def)
    from word [OF k this]
    show "handle_command r (a @ p @ g @ s @ b) = py ''Device has been stopped.''
          \<and> handle_command r (a @ s @ b) = py ''Device has been stopped.''"
      by (simp add: dispatch_def py_def)
  qed
  have status: "lower s = py ''status'' \<longrightarrow>
            handle_command r (a @ p @ g @ s @ b) = py ''Current sensor reading is '' @ str_int r @ py ''.''
          \<and> handle_command r (a @ s @ b) = py ''Current sensor reading is '' @ str_int r @ py ''.''"
  proof
    assume k: "lower s = py ''status''"
    have "py ''status'' \<noteq> []" "\<not> isspace (hd (py ''status''))" "\<not> isspace (last (py ''status''))"
      "take 7 (py ''status'') \<noteq> py ''/device''"
      by (simp_all add: py_def isspace_def)
    from word [OF k this]
    show "handle_command r (a @ p @ g @ s @ b) = py ''Current sensor reading is '' @ str_int r @ py ''.''
          \<and> handle_command r (a @ s @ b) = py ''Current sensor reading is '' @ str_int r @ py ''.''"
      by (simp add: dispatch_def)
  qed
  have again: "take 7 (lower t) = py ''/device'' \<and> \<not> isspace (last t) \<and> (\<forall>c \<in> set t. c < 0x80) \<longrightarrow>
            handle_command r (a @ p @ g @ t @ b) =
              py ''Unknown device command: '' @ [0x27] @ lower t @ [0x27] @ py ''.''
          \<and> take 7 (lower t) = py ''/device''"
  proof
    assume h: "take 7 (lower t) = py ''/device'' \<and> \<not> isspace (last t) \<and> (\<forall>c \<in> set t. c < 0x80)"
    then have tk: "take 7 (lower t) = py ''/device''" and lt: "\<not> isspace (last t)"
      by simp_all
    from tk have ne: "t \<noteq> []"
      by (auto simp: py_def lower_def)
    from tk ne have "lower_char (hd t) = 0x2F"
      by (cases t) (simp_all add: py_def lower_def)
    then have "\<not> isspace (lower_char (hd t))"
      by (simp add: isspace_def)
    then have ht: "\<not> isspace (hd t)"
      by (simp add: isspace_lower_char)
    from ne ht lt have tr: "t = [] \<or> (\<not> isspace (hd t) \<and> \<not> isspace (last t))"
      by simp
    have nd: "lower t \<notin> {py ''status'', py ''start'', py ''stop'', []}"
    proof
      assume "lower t \<in> {py ''status'', py ''start'', py ''stop'', []}"
      then have "take 7 (lower t) \<in> {py ''status'', py ''start'', py ''stop'', []}"
        by (auto simp: py_def)
      with tk show False
        by (simp add: py_def)
    qed
    have "handle_command r (a @ p @ g @ t @ b) =
              py ''Unknown device command: '' @ [0x27] @ lower t @ [0x27] @ py ''.''"
      unfolding handle_command_prefixed [OF a g b p tr] by (rule dispatch_unknown [OF nd])
    with tk show "handle_command r (a @ p @ g @ t @ b) =
              py ''Unknown device command: '' @ [0x27] @ lower t @ [0x27] @ py ''.''
          \<and> take 7 (lower t) = py ''/device''"
      by simp
  qed
  have upper: "handle_command r (py ''/DEVICE START'') = py ''Device has been started.''"
    by (simp add: py_eval)
  have twice: "handle_command r (py ''/device /device status'') =
       py ''Unknown device command: '' @ [0x27] @ py ''/device status'' @ [0x27] @ py ''.''"
    by (simp add: py_eval)
  from shape start stop status again upper twice show ?thesis
    by blast
qed


theorem handle_command_prefix_once_witness:
  "handle_command 0 ([0x20] @ py ''/DeViCe'' @ [0x09, 0x20] @ py ''StArT'' @ [0x0A]) = py ''Device has been started.''
   \<and> handle_command 0 ([0x20] @ py ''StArT'' @ [0x0A]) = py ''Device has been started.''
   \<and> handle_command 0 ([0x20] @ py ''/DeViCe'' @ [0x09, 0x20] @ py ''STOP'' @ [0x0A]) = py ''Device has been stopped.''
   \<and> handle_command 7 ([0x20] @ py ''/DeViCe'' @ [0x09, 0x20] @ py ''Status'' @ [0x0A]) = py ''Current sensor reading is 7.''
   \<and> handle_command 0 ([0x20] @ py ''/DeViCe'' @ [0x09, 0x20] @ py ''/Device  Status'' @ [0x0A]) =
       py ''Unknown device command: '' @ [0x27] @ py ''/device  status'' @ [0x27] @ py ''.''
   \<and> handle_command 0 ([0x20] @ py ''/DeViCe'' @ [0x09, 0x20] @ [] @ [0x0A]) =
       py ''No command provided. Try '' @ [0x27] @ py ''/device status'' @ [0x27] @ py ''.''"
proof -
  have h: "\<forall>c \<in> set [0x20]. isspace c" "\<forall>c \<in> set [0x09, 0x20]. isspace c" "\<forall>c \<in> set [0x0A]. isspace c"
    "lower (py ''/DeViCe'') = py ''/device''"
    by (simp_all add: py_def lower_def lower_char_def isspace_def)
  have s1: "lower (py ''StArT'') = py ''start''" and s2: "lower (py ''STOP'') = py ''stop''"
    and s3: "lower (py ''Status'') = py ''status''"
    and t1: "lower (py ''/Device  Status'') = py ''/device  status''"
    by (simp_all add: py_def lower_def lower_char_def)
  have t2: "take 7 (lower (py ''/Device  Status'')) = py ''/device''"
    "\<not> isspace (last (py ''/Device  Status''))" "\<forall>c \<in> set (py ''/Device  Status''). c < 0x80"
    unfolding t1 by (simp_all add: py_def isspace_def)
  have e: "([]::pystr) = [] \<or> (\<not> isspace (hd ([]::pystr)) \<and> \<not> isspace (last ([]::pystr)))"
    "\<forall>c \<in> set ([]::pystr). c < 0x80"
    by simp_all
  have seven: "str_int 7 = py ''7''"
    by (simp add: str_int_def digits_small py_def)
  have lit: "py ''Current sensor reading is '' @ py ''7'' @ py ''.'' = py ''Current sensor reading is 7.''"
    by (simp add: py_def)
  from handle_command_prefix_once [OF h, of _ 0 "py ''StArT''"] s1
  have c1: "handle_command 0 ([0x20] @ py ''/DeViCe'' @ [0x09, 0x20] @ py ''StArT'' @ [0x0A]) = py ''Device has been started.''"
    "handle_command 0 ([0x20] @ py ''StArT'' @ [0x0A]) = py ''Device has been started.''"
    by blast+
  from handle_command_prefix_once [OF h, of _ 0 "py ''STOP''"] s2
  have c2: "handle_command 0 ([0x20] @ py ''/DeViCe'' @ [0x09, 0x20] @ py ''STOP'' @ [0x0A]) = py ''Device has been stopped.''"
    by blast
  from handle_command_prefix_once [OF h, of _ 7 "py ''Status''"] s3
  have "handle_command 7 ([0x20] @ py ''/DeViCe'' @ [0x09, 0x20] @ py ''Status'' @ [0x0A]) =
      py ''Current sensor reading is '' @ str_int 7 @ py ''.''"
    by blast
  then have c3: "handle_command 7 ([0x20] @ py ''/DeViCe'' @ [0x09, 0x20] @ py ''Status'' @ [0x0A]) = py ''Current sensor reading is 7.''"
    unfolding seven lit .
  from handle_command_prefix_once [OF h, of "py ''/Device  Status''" 0] t2
  have "handle_command 0 ([0x20] @ py ''/DeViCe'' @ [0x09, 0x20] @ py ''/Device  Status'' @ [0x0A]) =
       py ''Unknown device command: '' @ [0x27] @ lower (py ''/Device  Status'') @ [0x27] @ py ''.''"
    by blast
  then have c4: "handle_command 0 ([0x20] @ py ''/DeViCe'' @ [0x09, 0x20] @ py ''/Device  Status'' @ [0x0A]) =
       py ''Unknown device command: '' @ [0x27] @ py ''/device  status'' @ [0x27] @ py ''.''"
    unfolding t1 .
  from handle_command_prefix_once [OF h, of "[]" 0] e
  have "handle_command 0 ([0x20] @ py ''/DeViCe'' @ [0x09, 0x20] @ [] @ [0x0A]) = dispatch 0 (lower [])"
    by blast
  then have c5: "handle_command 0 ([0x20] @ py ''/DeViCe'' @ [0x09, 0x20] @ [] @ [0x0A]) =
       py ''No command provided. Try '' @ [0x27] @ py ''/device status'' @ [0x27] @ py ''.''"
    by (simp add: dispatch_def lower_def py_def)
  from c1 c2 c3 c4 c5 show ?thesis
    by blast
qed


section \<open>Properties of the chat server\<close>

subsection \<open>The log of sent texts\<close>

lemma sent_remove_client [simp]: "sent (remove_client c st) = sent st"
  by (simp add: remove_client_def)

lemma sent_apply_event [simp]: "sent (apply_event st e) = sent st"
  by (cases e) (simp_all add: websocket_accept_def)

lemma sent_foldl_apply_event [simp]: "sent (foldl apply_event st evs) = sent st"
  by (induction evs arbitrary: st) simp_all

lemma sent_others_run [simp]: "sent (others_run sched st) = sent st"
  by (simp add: others_run_def split: list.splits)

text \<open>
  The sensor loop sends to the reachable members of its copy of the list, each once
  and in order, whatever the other tasks do to the list meanwhile.
\<close>

lemma sensor_fanout_sent:
  "sent (sensor_fanout up sched message snapshot st) =
     sent st @ map (\<lambda>c. (c, message)) (filter up snapshot)"
  by (induction snapshot arbitrary: sched st) (simp_all add: send_text_def)

subsection \<open>The chat loop running alone with every peer reachable\<close>

text \<open>
  With no other task running and every registered peer reachable, the chat loop started
  at index \<open>i\<close> sends the text to the clients from \<open>i\<close> on other than the sender, in
  order, and leaves the list as it is.
\<close>

lemma chat_fanout_quiet:
  "sched = [] \<Longrightarrow> \<forall>c \<in> set (connected_clients st). up c \<Longrightarrow>
   chat_fanout up sched ws t i st =
     st\<lparr>sent := sent st @ map (\<lambda>c. (c, t)) (filter (\<lambda>c. c \<noteq> ws) (drop i (connected_clients st)))\<rparr>"
proof (induction up sched ws t i st rule: chat_fanout.induct)
  case (1 up sched ws t i st)
  show ?case
  proof (cases "i < length (connected_clients st)")
    case False
    then show ?thesis
      by (subst chat_fanout.simps) simp
  next
    case True
    let ?c = "connected_clients st ! i"
    from True have dr: "drop i (connected_clients st) = ?c # drop (Suc i) (connected_clients st)"
      by (simp add: Cons_nth_drop_Suc)
    from True "1.prems" have upc: "up ?c"
      by simp
    show ?thesis
    proof (cases "?c = ws")
      case same: True
      from "1.IH"(3) [OF True refl _ "1.prems"] same
      have "chat_fanout up sched ws t (i + 1) st =
          st\<lparr>sent := sent st @ map (\<lambda>c. (c, t)) (filter (\<lambda>c. c \<noteq> ws) (drop (i + 1) (connected_clients st)))\<rparr>"
        by simp
      with True same dr show ?thesis
        by (subst chat_fanout.simps) simp
    next
      case other: False
      let ?st' = "st\<lparr>sent := sent st @ [(?c, t)]\<rparr>"
      from "1.prems" upc have snd: "send_text up ?c t (others_run sched st) = Inr ?st'"
        by (simp add: send_text_def others_run_def)
      from "1.IH"(2) [OF True refl other snd] "1.prems"
      have "chat_fanout up (tl sched) ws t (i + 1) ?st' =
          ?st'\<lparr>sent := sent ?st' @ map (\<lambda>c. (c, t)) (filter (\<lambda>c. c \<noteq> ws) (drop (i + 1) (connected_clients ?st')))\<rparr>"
        by simp
      with True other dr snd show ?thesis
        by (subst chat_fanout.simps) simp
    qed
  qed
qed

lemma length_filter_others:
  "distinct cs \<Longrightarrow> ws \<in> set cs \<Longrightarrow> length (filter (\<lambda>c. c \<noteq> ws) cs) = length cs - 1"
proof (induction cs)
  case Nil
  then show ?case by simp
next
  case (Cons a cs)
  show ?case
  proof (cases "a = ws")
    case True
    with Cons.prems have "filter (\<lambda>c. c \<noteq> ws) cs = cs"
      by (auto simp: filter_id_conv)
    with True show ?thesis by simp
  next
    case False
    with Cons.prems have "ws \<in> set cs" "distinct cs"
      by auto
    with Cons.IH have "length (filter (\<lambda>c. c \<noteq> ws) cs) = length cs - 1"
      by simp
    moreover from \<open>ws \<in> set cs\<close> have "0 < length cs"
      by (rule length_pos_if_in_set)
    ultimately show ?thesis
      using False by simp
  qed
qed

text \<open>
  Claim C1.  A text that is not a device command, received from the connection
  \<open>ws\<close> while the list holds \<open>N\<close> distinct connections, \<open>ws\<close> among them, all
  reachable, and no other task changes the list during the call: the text
  \<open>User\<close> arrow \<open>m\<close> is sent once to each of the \<open>N - 1\<close> connections other than
  \<open>ws\<close>, in the order of the list, and nothing is sent to \<open>ws\<close>; the list is
  unchanged and the session goes on reading.
\<close>

theorem chat_message_reaches_all_others:
  assumes "\<not> startswith (lower (strip m)) (py ''/device'')"
    and "distinct (connected_clients st)"
    and "ws \<in> set (connected_clients st)"
    and "\<forall>c \<in> set (connected_clients st). up c"
  shows "websocket_receive up [] r ws m st =
           (Reading, st\<lparr>sent := sent st @ map (\<lambda>c. (c, py ''User '' @ [0x27A4] @ py '' '' @ m))
                                          (filter (\<lambda>c. c \<noteq> ws) (connected_clients st))\<rparr>)
       \<and> length (filter (\<lambda>c. c \<noteq> ws) (connected_clients st)) = length (connected_clients st) - 1
       \<and> distinct (filter (\<lambda>c. c \<noteq> ws) (connected_clients st))
       \<and> set (filter (\<lambda>c. c \<noteq> ws) (connected_clients st)) = set (connected_clients st) - {ws}"
proof -
  from assms(4) have "chat_fanout up [] ws (py ''User '' @ [0x27A4] @ py '' '' @ m) 0 st =
      st\<lparr>sent := sent st @ map (\<lambda>c. (c, py ''User '' @ [0x27A4] @ py '' '' @ m))
                              (filter (\<lambda>c. c \<noteq> ws) (drop 0 (connected_clients st)))\<rparr>"
    by (intro chat_fanout_quiet refl)
  with assms(1) have run: "websocket_receive up [] r ws m st =
           (Reading, st\<lparr>sent := sent st @ map (\<lambda>c. (c, py ''User '' @ [0x27A4] @ py '' '' @ m))
                                          (filter (\<lambda>c. c \<noteq> ws) (connected_clients st))\<rparr>)"
    by (simp add: websocket_receive_def)
  from assms(2,3) have len: "length (filter (\<lambda>c. c \<noteq> ws) (connected_clients st)) = length (connected_clients st) - 1"
    by (rule length_filter_others)
  from assms(2) have dist: "distinct (filter (\<lambda>c. c \<noteq> ws) (connected_clients st))"
    by simp
  have mem: "set (filter (\<lambda>c. c \<noteq> ws) (connected_clients st)) = set (connected_clients st) - {ws}"
    by auto
  from run len dist mem show ?thesis
    by blast
qed

theorem chat_message_reaches_all_others_witness:
  "\<not> startswith (lower (strip (py ''hello''))) (py ''/device'')
   \<and> websocket_receive (\<lambda>c. True) [] 0 1 (py ''hello'') \<lparr>connected_clients = [1, 2, 3], sent = []\<rparr> =
       (Reading, \<lparr>connected_clients = [1, 2, 3],
                  sent = [(2, py ''User '' @ [0x27A4] @ py '' hello''), (3, py ''User '' @ [0x27A4] @ py '' hello'')]\<rparr>)"
proof -
  have h: "\<not> startswith (lower (strip (py ''hello''))) (py ''/device'')"
    by (simp add: py_eval)
  from chat_message_reaches_all_others [of "py ''hello''" "\<lparr>connected_clients = [1, 2, 3], sent = []\<rparr>" 1 "\<lambda>c. True" 0, OF h] h
  show ?thesis
    by (simp add: py_def)
qed

subsection \<open>Device commands\<close>

text \<open>
  Claim C2.  A text that, trimmed and lower-cased, starts with \<open>/device\<close>: its
  first seven code points after trimming are the prefix in some letter case; the
  reply is the dispatch on what follows them, trimmed (and lower-cased); the only
  text the round sends is that reply behind the tag \<open>Device\<close> arrow, to the sender
  itself, and nothing if the send to the sender fails (the session then ends).  No
  other connection receives anything, whatever the other tasks do meanwhile.
\<close>

theorem device_command_reply_only_to_sender:
  assumes "startswith (lower (strip data)) (py ''/device'')"
  shows "lower (take 7 (strip data)) = py ''/device''
       \<and> handle_command r data = dispatch r (lower (strip (drop 7 (strip data))))
       \<and> sent (snd (websocket_receive up sched r ws data st)) =
           sent st @ (if up ws
                      then [(ws, py ''Device '' @ [0x27A4] @ py '' '' @ dispatch r (lower (strip (drop 7 (strip data)))))]
                      else [])
       \<and> (\<forall>(c, t) \<in> set (drop (length (sent st)) (sent (snd (websocket_receive up sched r ws data st)))). c = ws)
       \<and> fst (websocket_receive up sched r ws data st) = (if up ws then Reading else Disconnected)"
proof -
  from assms have "take 7 (lower (strip data)) = py ''/device''"
    by (simp add: startswith_def len_prefix)
  then have pre: "lower (take 7 (strip data)) = py ''/device''"
    by (simp add: lower_def take_map)
  from assms have resp: "handle_command r data = dispatch r (lower (strip (drop 7 (strip data))))"
    by (simp add: handle_command_def normalise_def len_prefix Let_def)
  from assms have log: "sent (snd (websocket_receive up sched r ws data st)) =
           sent st @ (if up ws
                      then [(ws, py ''Device '' @ [0x27A4] @ py '' '' @ dispatch r (lower (strip (drop 7 (strip data)))))]
                      else [])"
    by (simp add: websocket_receive_def send_text_def resp)
  from assms have status: "fst (websocket_receive up sched r ws data st) = (if up ws then Reading else Disconnected)"
    by (simp add: websocket_receive_def send_text_def)
  have only: "\<forall>(c, t) \<in> set (drop (length (sent st)) (sent (snd (websocket_receive up sched r ws data st)))). c = ws"
    unfolding log by simp
  from pre resp log status only show ?thesis
    by blast
qed

theorem device_command_reply_only_to_sender_witness:
  "startswith (lower (strip (py '' /Device start''))) (py ''/device'')
   \<and> sent (snd (websocket_receive (\<lambda>c. True) [[Connect 3]] 0 1 (py '' /Device start'')
                  \<lparr>connected_clients = [1, 2], sent = []\<rparr>)) =
       [(1, py ''Device '' @ [0x27A4] @ py '' Device has been started.'')]"
proof -
  have h: "startswith (lower (strip (py '' /Device start''))) (py ''/device'')"
    by (simp add: py_eval)
  have d: "dispatch 0 (lower (strip (drop 7 (strip (py '' /Device start''))))) = py ''Device has been started.''"
    by (simp add: py_eval)
  from device_command_reply_only_to_sender [OF h, of 0 "\<lambda>c. True" "[[Connect 3]]" 1 "\<lparr>connected_clients = [1, 2], sent = []\<rparr>"] h
  show ?thesis
    unfolding d by (simp add: py_def)
qed

subsection \<open>The chat loop iterates over the list it changes\<close>

lemmas hub_eval = chat_fanout.simps websocket_receive_def device_sensor_broadcast_def send_text_def
  others_run_def remove_client_def websocket_accept_def Let_def

text \<open>
  Claim C3, at a failing input.  The connections 1, 2 and 3 are registered, the peer
  of 2 is gone, and 1 sends \<open>hello\<close>.  The failed send to 2 removes 2 from the list
  under iteration, the index moves on, and 3 is never visited: nothing is sent,
  although 3 is reachable.  The sensor loop, which iterates over a copy, removes 2
  and still reaches 1 and 3 from the same state.
\<close>

theorem chat_fanout_failed_send_skips_next:
  "websocket_receive (\<lambda>c. c \<noteq> 2) [] 0 1 (py ''hello'') \<lparr>connected_clients = [1, 2, 3], sent = []\<rparr> =
     (Reading, \<lparr>connected_clients = [1, 3], sent = []\<rparr>)
   \<and> device_sensor_broadcast (\<lambda>c. c \<noteq> 2) [] 42 \<lparr>connected_clients = [1, 2, 3], sent = []\<rparr> =
     \<lparr>connected_clients = [1, 3],
      sent = [(1, py ''Sensor reading: 42''), (3, py ''Sensor reading: 42'')]\<rparr>"
proof -
  have chat: "websocket_receive (\<lambda>c. c \<noteq> 2) [] 0 1 (py ''hello'') \<lparr>connected_clients = [1, 2, 3], sent = []\<rparr> =
     (Reading, \<lparr>connected_clients = [1, 3], sent = []\<rparr>)"
    by (simp add: hub_eval py_eval)
  have sensor: "device_sensor_broadcast (\<lambda>c. c \<noteq> 2) [] 42 \<lparr>connected_clients = [1, 2, 3], sent = []\<rparr> =
     \<lparr>connected_clients = [1, 3],
      sent = [(1, py ''Sensor reading: 42''), (3, py ''Sensor reading: 42'')]\<rparr>"
    by (simp add: hub_eval str_int_42) (simp add: py_def)
  from chat sensor show ?thesis
    by blast
qed

text \<open>
  Claim C4, at a failing input.  The connections 1 and 2 are registered and 1 sends
  \<open>hello\<close>; while the send to 2 is pending, connection 3 is accepted.  The chat
  loop reads the list itself, so 3, added after the call began, receives this
  broadcast.  The sensor loop under the same schedule sends to 1 and 2 only.
\<close>

theorem chat_fanout_reaches_late_joiner:
  "websocket_receive (\<lambda>c. True) [[Connect 3]] 0 1 (py ''hello'') \<lparr>connected_clients = [1, 2], sent = []\<rparr> =
     (Reading, \<lparr>connected_clients = [1, 2, 3],
                sent = [(2, py ''User '' @ [0x27A4] @ py '' hello''), (3, py ''User '' @ [0x27A4] @ py '' hello'')]\<rparr>)
   \<and> device_sensor_broadcast (\<lambda>c. True) [[Connect 3]] 42 \<lparr>connected_clients = [1, 2], sent = []\<rparr> =
     \<lparr>connected_clients = [1, 2, 3],
      sent = [(1, py ''Sensor reading: 42''), (2, py ''Sensor reading: 42'')]\<rparr>"
proof -
  have chat: "websocket_receive (\<lambda>c. True) [[Connect 3]] 0 1 (py ''hello'') \<lparr>connected_clients = [1, 2], sent = []\<rparr> =
     (Reading, \<lparr>connected_clients = [1, 2, 3],
                sent = [(2, py ''User '' @ [0x27A4] @ py '' hello''), (3, py ''User '' @ [0x27A4] @ py '' hello'')]\<rparr>)"
    by (simp add: hub_eval py_eval)
  have sensor: "device_sensor_broadcast (\<lambda>c. True) [[Connect 3]] 42 \<lparr>connected_clients = [1, 2], sent = []\<rparr> =
     \<lparr>connected_clients = [1, 2, 3],
      sent = [(1, py ''Sensor reading: 42''), (2, py ''Sensor reading: 42'')]\<rparr>"
    by (simp add: hub_eval str_int_42) (simp add: py_def)
  from chat sensor show ?thesis
    by blast
qed

subsection \<open>Membership after connects and disconnects\<close>

lemma expected_members_iff:
  "c \<in> expected_members evs \<longleftrightarrow> (\<exists>pre post. evs = pre @ Connect c # post \<and> Disconnect c \<notin> set post)"
proof (induction evs)
  case Nil
  then show ?case by simp
next
  case (Cons e evs)
  have split: "(\<exists>pre post. e # evs = pre @ Connect c # post \<and> Disconnect c \<notin> set post) \<longleftrightarrow>
      (e = Connect c \<and> Disconnect c \<notin> set evs) \<or> (\<exists>pre post. evs = pre @ Connect c # post \<and> Disconnect c \<notin> set post)"
    (is "?L \<longleftrightarrow> ?A \<or> ?B")
  proof
    assume ?L
    then obtain pre post where eq: "e # evs = pre @ Connect c # post" and nd: "Disconnect c \<notin> set post"
      by blast
    show "?A \<or> ?B"
    proof (cases pre)
      case Nil
      with eq nd show ?thesis by simp
    next
      case (Cons p pre')
      with eq nd show ?thesis by auto
    qed
  next
    assume "?A \<or> ?B"
    then show ?L
    proof
      assume ?A
      then have "e # evs = [] @ Connect c # evs \<and> Disconnect c \<notin> set evs" by simp
      then show ?L by blast
    next
      assume ?B
      then obtain pre post where "evs = pre @ Connect c # post" "Disconnect c \<notin> set post" by blast
      then have "e # evs = (e # pre) @ Connect c # post \<and> Disconnect c \<notin> set post" by simp
      then show ?L by blast
    qed
  qed
  show ?case
    unfolding split using Cons.IH by (cases e) auto
qed

lemma set_remove_client:
  "distinct (connected_clients st) \<Longrightarrow>
   set (connected_clients (remove_client c st)) = set (connected_clients st) - {c}"
  by (auto simp: remove_client_def)

lemma distinct_remove_client:
  "distinct (connected_clients st) \<Longrightarrow> distinct (connected_clients (remove_client c st))"
  by (simp add: remove_client_def)

lemma expected_members_accepted: "expected_members evs \<subseteq> set (accepted evs)"
  by (induction evs rule: accepted.induct) auto

lemma registry_after_events:
  "distinct (connected_clients st) \<Longrightarrow> distinct (accepted evs) \<Longrightarrow>
   set (connected_clients st) \<inter> set (accepted evs) = {} \<Longrightarrow>
   set (connected_clients (foldl apply_event st evs)) =
     (set (connected_clients st) - {c. Disconnect c \<in> set evs}) \<union> expected_members evs
   \<and> distinct (connected_clients (foldl apply_event st evs))"
proof (induction evs arbitrary: st rule: accepted.induct)
  case 1
  then show ?case by simp
next
  case (2 c evs)
  let ?st = "websocket_accept c st"
  from "2.prems" have "distinct (connected_clients ?st)" "distinct (accepted evs)"
    "set (connected_clients ?st) \<inter> set (accepted evs) = {}"
    by (auto simp: websocket_accept_def)
  from "2.IH" [OF this] have
    "set (connected_clients (foldl apply_event ?st evs)) =
       (set (connected_clients ?st) - {c. Disconnect c \<in> set evs}) \<union> expected_members evs"
    "distinct (connected_clients (foldl apply_event ?st evs))"
    by simp_all
  then show ?case
    by (auto simp: websocket_accept_def)
next
  case (3 c evs)
  let ?st = "remove_client c st"
  from "3.prems" have "distinct (connected_clients ?st)" "distinct (accepted evs)"
    "set (connected_clients ?st) \<inter> set (accepted evs) = {}"
    by (auto simp: set_remove_client distinct_remove_client)
  from "3.IH" [OF this] have
    "set (connected_clients (foldl apply_event ?st evs)) =
       (set (connected_clients ?st) - {c. Disconnect c \<in> set evs}) \<union> expected_members evs"
    "distinct (connected_clients (foldl apply_event ?st evs))"
    by simp_all
  with "3.prems"(1) show ?case
    by (auto simp: set_remove_client)
qed

text \<open>
  Claim C5.  Starting from the empty list, after any finite trace of connects and
  disconnects in which every accept is of a new connection (each \<open>WebSocket\<close> object
  is accepted once), the list holds exactly the connections that were accepted and
  have no disconnect after their accept, and it holds none of them twice.
\<close>

theorem registry_membership_after_trace:
  assumes "distinct (accepted evs)"
  shows "set (connected_clients (foldl apply_event initial evs)) = expected_members evs
       \<and> (\<forall>c. c \<in> set (connected_clients (foldl apply_event initial evs)) \<longleftrightarrow>
                (\<exists>pre post. evs = pre @ Connect c # post \<and> Disconnect c \<notin> set post))
       \<and> distinct (connected_clients (foldl apply_event initial evs))"
proof -
  from assms have inv:
    "set (connected_clients (foldl apply_event initial evs)) =
       (set (connected_clients initial) - {c. Disconnect c \<in> set evs}) \<union> expected_members evs
     \<and> distinct (connected_clients (foldl apply_event initial evs))"
    by (intro registry_after_events) (simp_all add: initial_def)
  then have mem: "set (connected_clients (foldl apply_event initial evs)) = expected_members evs"
    by (simp add: initial_def)
  from mem have "\<forall>c. c \<in> set (connected_clients (foldl apply_event initial evs)) \<longleftrightarrow>
                (\<exists>pre post. evs = pre @ Connect c # post \<and> Disconnect c \<notin> set post)"
    by (simp add: expected_members_iff)
  with mem inv show ?thesis
    by blast
qed

theorem registry_membership_after_trace_witness:
  "distinct (accepted [Connect 1, Connect 2, Disconnect 1, Connect 3, Disconnect 5])
   \<and> set (connected_clients
           (foldl apply_event initial [Connect 1, Connect 2, Disconnect 1, Connect 3, Disconnect 5])) = {2, 3}
   \<and> distinct (connected_clients
           (foldl apply_event initial [Connect 1, Connect 2, Disconnect 1, Connect 3, Disconnect 5]))"
proof -
  have h: "distinct (accepted [Connect 1, Connect 2, Disconnect 1, Connect 3, Disconnect 5])"
    by simp
  have e: "expected_members [Connect 1, Connect 2, Disconnect 1, Connect 3, Disconnect 5] = {2, 3}"
    by simp
  from registry_membership_after_trace [OF h] h show ?thesis
    unfolding e by blast
qed

subsection \<open>Entering the endpoint twice\<close>






end
